theory Spec2Isabelle
  imports Main "HOL-Library.Sublist"
begin

section \<open>The table-state hook \<open>useTable\<close> (frontend/src/hooks/UseTable.tsx)\<close>

subsection \<open>JavaScript values\<close>

text \<open>
  The hook is written over untyped data (\<open>any[]\<close>). Primitive values are the ones a
  key field can hold. Numbers are represented by the integers (the primary keys the
  backend issues) together with \<open>NaN\<close>, the one number that is not equal to itself;
  a fractional number behaves under both equalities below like a further integer.
\<close>

datatype jsprim = JUndefined | JNull | JBool bool | JNum int | JNaN | JStr string

text \<open>An object is its list of properties; a record of the table is an object.\<close>

type_synonym jsobj = "(string \<times> jsprim) list"

text \<open>An entry of an \<open>any[]\<close> array is a primitive or an object.\<close>

datatype jsval = Prim jsprim | Obj jsobj

text \<open>Property access \<open>r.name\<close>: a property the object lacks reads as \<open>undefined\<close>.\<close>

definition getProp :: "jsobj \<Rightarrow> string \<Rightarrow> jsprim" where
  "getProp r name = (case map_of r name of None \<Rightarrow> JUndefined | Some v \<Rightarrow> v)"

text \<open>Strict equality \<open>a === b\<close> on primitives: \<open>NaN\<close> is not equal to anything.\<close>

definition strict_eq :: "jsprim \<Rightarrow> jsprim \<Rightarrow> bool" where
  "strict_eq a b = (a = b \<and> a \<noteq> JNaN)"

text \<open>
  \<open>SameValueZero\<close>, the comparison of \<open>Array.prototype.includes\<close>, of an array entry
  with a primitive: \<open>NaN\<close> is found, and an object is never the same value as a
  primitive.
\<close>

fun same_value_zero :: "jsval \<Rightarrow> jsprim \<Rightarrow> bool" where
  "same_value_zero (Prim p) k = (p = k)"
| "same_value_zero (Obj _) k = False"

text \<open>Nullish coalescing \<open>a ?? b\<close>.\<close>

definition nullish :: "jsprim \<Rightarrow> jsprim \<Rightarrow> jsprim" where
  "nullish a b = (if a = JUndefined \<or> a = JNull then b else a)"

text \<open>\<open>Array.prototype.findIndex\<close>: the first index whose element satisfies the
  predicate, \<open>-1\<close> when there is none.\<close>

fun findIndex :: "('a \<Rightarrow> bool) \<Rightarrow> 'a list \<Rightarrow> int" where
  "findIndex P [] = - 1"
| "findIndex P (x # xs) =
     (if P x then 0
      else (let i = findIndex P xs in if i < 0 then - 1 else i + 1))"

text \<open>\<open>Array.prototype.includes\<close> with a primitive argument.\<close>

definition includes_arr :: "jsval list \<Rightarrow> jsprim \<Rightarrow> bool" where
  "includes_arr xs k = list_ex (\<lambda>e. same_value_zero e k) xs"

text \<open>\<open>s.replaceAll(c, rep)\<close> for a one-character pattern \<open>c\<close>.\<close>

definition replaceAll :: "char \<Rightarrow> string \<Rightarrow> string \<Rightarrow> string" where
  "replaceAll c rep s = concat (map (\<lambda>x. if x = c then rep else [x]) s)"

subsection \<open>The persisted key-value store\<close>

type_synonym TableFilter = jsobj

text \<open>
  Modelled from the spec: \<open>useLocalStorage\<close> of the library \<open>@mantine/hooks\<close> is not
  part of the sources. Its contract is get-or-default on read and set-triggers-persist on
  write, the values being serialized arrays; the store holds the array that was written,
  that is, serialization followed by deserialization is taken to be the identity.
\<close>

datatype stored = StoredFilters "TableFilter list" | StoredColumns "string list"

type_synonym storage = "(string \<times> stored) list"

definition getItem :: "storage \<Rightarrow> string \<Rightarrow> stored option" where
  "getItem st key = map_of st key"

definition setItem :: "string \<Rightarrow> stored \<Rightarrow> storage \<Rightarrow> storage" where
  "setItem key v st = (key, v) # filter (\<lambda>kv. fst kv \<noteq> key) st"

definition filtersKey :: "string \<Rightarrow> string" where
  "filtersKey tableName = ''inventree-table-filters-'' @ tableName"

definition columnsKey :: "string \<Rightarrow> string" where
  "columnsKey tableName = ''inventree-hidden-table-columns-'' @ tableName"

definition readFilters :: "storage \<Rightarrow> string \<Rightarrow> TableFilter list" where
  "readFilters st tableName =
     (case getItem st (filtersKey tableName) of Some (StoredFilters fs) \<Rightarrow> fs | _ \<Rightarrow> [])"

definition readColumns :: "storage \<Rightarrow> string \<Rightarrow> string list" where
  "readColumns st tableName =
     (case getItem st (columnsKey tableName) of Some (StoredColumns cs) \<Rightarrow> cs | _ \<Rightarrow> [])"

subsection \<open>The state of one table\<close>

text \<open>
  One field per state cell of the hook (\<open>useState\<close>, \<open>useLocalStorage\<close>), and the
  hook's argument \<open>tableName\<close>. The browser's store outlives the hook, so it is kept
  beside the state: the persisted setters take and return it.
\<close>

record TableState =
  tableName :: string
  tableKey :: string
  activeFilters :: "TableFilter list"
  expandedRecords :: "jsval list"
  selectedRecords :: "jsobj list"
  recordCount :: int
  page :: int
  pageSize :: int
  hiddenColumns :: "string list"
  searchTerm :: string
  records :: "jsobj list"
  isLoading :: bool
  editable :: bool

text \<open>
  \<open>generateTableName\<close>: the value of \<open>randomId()\<close> is an argument, the random draw
  being made by the caller of the model.
\<close>

definition generateTableName :: "string \<Rightarrow> string \<Rightarrow> string" where
  "generateTableName name rid = replaceAll CHR ''-'' [] name @ ''-'' @ rid"

text \<open>
  The mount of the hook: \<open>rid\<close> is the random id drawn for the first token, \<open>st\<close> the
  store as the mount finds it. The two persisted cells hold what the store gives, every
  other cell its default. (\<open>activeFilters\<close> is read during the first render,
  \<open>getInitialValueInEffect: false\<close>; \<open>hiddenColumns\<close> is left to the library's default,
  which reads the store in an effect of the mount. The state here is the mounted one.)
\<close>

definition useTable :: "string \<Rightarrow> string \<Rightarrow> storage \<Rightarrow> TableState" where
  "useTable name rid st =
     \<lparr> tableName = name,
       tableKey = generateTableName name rid,
       activeFilters = readFilters st name,
       expandedRecords = [],
       selectedRecords = [],
       recordCount = 0,
       page = 1,
       pageSize = 25,
       hiddenColumns = readColumns st name,
       searchTerm = [],
       records = [],
       isLoading = False,
       editable = False \<rparr>"

definition refreshTable :: "string \<Rightarrow> TableState \<Rightarrow> TableState" where
  "refreshTable rid s = s\<lparr>tableKey := generateTableName (tableName s) rid\<rparr>"

definition setActiveFilters ::
  "TableFilter list \<Rightarrow> TableState \<times> storage \<Rightarrow> TableState \<times> storage" where
  "setActiveFilters fs w =
     ((fst w)\<lparr>activeFilters := fs\<rparr>,
      setItem (filtersKey (tableName (fst w))) (StoredFilters fs) (snd w))"

definition clearActiveFilters :: "TableState \<times> storage \<Rightarrow> TableState \<times> storage" where
  "clearActiveFilters w = setActiveFilters [] w"

definition setHiddenColumns ::
  "string list \<Rightarrow> TableState \<times> storage \<Rightarrow> TableState \<times> storage" where
  "setHiddenColumns cs w =
     ((fst w)\<lparr>hiddenColumns := cs\<rparr>,
      setItem (columnsKey (tableName (fst w))) (StoredColumns cs) (snd w))"

definition setExpandedRecords :: "jsval list \<Rightarrow> TableState \<Rightarrow> TableState" where
  "setExpandedRecords es s = s\<lparr>expandedRecords := es\<rparr>"

definition isRowExpanded :: "TableState \<Rightarrow> jsprim \<Rightarrow> bool" where
  "isRowExpanded s pk = includes_arr (expandedRecords s) pk"

definition setSelectedRecords :: "jsobj list \<Rightarrow> TableState \<Rightarrow> TableState" where
  "setSelectedRecords rs s = s\<lparr>selectedRecords := rs\<rparr>"

definition clearSelectedRecords :: "TableState \<Rightarrow> TableState" where
  "clearSelectedRecords s = setSelectedRecords [] s"

definition selectedIds :: "TableState \<Rightarrow> jsprim list" where
  "selectedIds s = map (\<lambda>r. nullish (getProp r ''pk'') (getProp r ''id'')) (selectedRecords s)"

definition hasSelectedRecords :: "TableState \<Rightarrow> bool" where
  "hasSelectedRecords s = (length (selectedRecords s) > 0)"

definition setRecordCount :: "int \<Rightarrow> TableState \<Rightarrow> TableState" where
  "setRecordCount n s = s\<lparr>recordCount := n\<rparr>"

definition setPage :: "int \<Rightarrow> TableState \<Rightarrow> TableState" where
  "setPage n s = s\<lparr>page := n\<rparr>"

definition setPageSize :: "int \<Rightarrow> TableState \<Rightarrow> TableState" where
  "setPageSize n s = s\<lparr>pageSize := n\<rparr>"

definition setSearchTerm :: "string \<Rightarrow> TableState \<Rightarrow> TableState" where
  "setSearchTerm t s = s\<lparr>searchTerm := t\<rparr>"

definition setRecords :: "jsobj list \<Rightarrow> TableState \<Rightarrow> TableState" where
  "setRecords rs s = s\<lparr>records := rs\<rparr>"

text \<open>
  \<open>updateRecord\<close>: the copy of the records is searched for the first record whose \<open>pk\<close> is
  strictly equal to the new record's; the record is written at that index, or pushed
  when \<open>findIndex\<close> gives \<open>-1\<close>. The callback is made anew on every render
  (\<open>useCallback\<close> with the dependency \<open>records\<close>) and reads the \<open>records\<close> of its
  render: \<open>updateRecord rec s\<close> is a call of the callback of the render of \<open>s\<close>, made
  when \<open>s\<close> is still the state.
\<close>

definition samePk :: "jsobj \<Rightarrow> jsobj \<Rightarrow> bool" where
  "samePk rec r = strict_eq (getProp r ''pk'') (getProp rec ''pk'')"

definition updateRecord :: "jsobj \<Rightarrow> TableState \<Rightarrow> TableState" where
  "updateRecord rec s =
     (let records' = records s;
          index = findIndex (samePk rec) records'
      in if index \<ge> 0
         then setRecords (records'[nat index := rec]) s
         else setRecords (records' @ [rec]) s)"

definition setIsLoading :: "bool \<Rightarrow> TableState \<Rightarrow> TableState" where
  "setIsLoading v s = s\<lparr>isLoading := v\<rparr>"

definition setEditable :: "bool \<Rightarrow> TableState \<Rightarrow> TableState" where
  "setEditable v s = s\<lparr>editable := v\<rparr>"

subsection \<open>Sequences of calls\<close>

text \<open>
  The calls a client can make on the hook, and their effect on the state and the store,
  in the order the calls are made, each call being made on the render that follows the
  call before it. \<open>RefreshTable\<close> carries the random id drawn by that call.
\<close>

datatype action =
    RefreshTable string
  | SetActiveFilters "TableFilter list"
  | ClearActiveFilters
  | SetExpandedRecords "jsval list"
  | SetSelectedRecords "jsobj list"
  | ClearSelectedRecords
  | SetRecordCount int
  | SetPage int
  | SetPageSize int
  | SetHiddenColumns "string list"
  | SetSearchTerm string
  | SetRecords "jsobj list"
  | UpdateRecord jsobj
  | SetIsLoading bool
  | SetEditable bool

fun perform :: "action \<Rightarrow> TableState \<times> storage \<Rightarrow> TableState \<times> storage" where
  "perform (RefreshTable rid) w = (refreshTable rid (fst w), snd w)"
| "perform (SetActiveFilters fs) w = setActiveFilters fs w"
| "perform ClearActiveFilters w = clearActiveFilters w"
| "perform (SetExpandedRecords es) w = (setExpandedRecords es (fst w), snd w)"
| "perform (SetSelectedRecords rs) w = (setSelectedRecords rs (fst w), snd w)"
| "perform ClearSelectedRecords w = (clearSelectedRecords (fst w), snd w)"
| "perform (SetRecordCount n) w = (setRecordCount n (fst w), snd w)"
| "perform (SetPage n) w = (setPage n (fst w), snd w)"
| "perform (SetPageSize n) w = (setPageSize n (fst w), snd w)"
| "perform (SetHiddenColumns cs) w = setHiddenColumns cs w"
| "perform (SetSearchTerm t) w = (setSearchTerm t (fst w), snd w)"
| "perform (SetRecords rs) w = (setRecords rs (fst w), snd w)"
| "perform (UpdateRecord r) w = (updateRecord r (fst w), snd w)"
| "perform (SetIsLoading v) w = (setIsLoading v (fst w), snd w)"
| "perform (SetEditable v) w = (setEditable v (fst w), snd w)"

fun performAll :: "action list \<Rightarrow> TableState \<times> storage \<Rightarrow> TableState \<times> storage" where
  "performAll [] w = w"
| "performAll (a # as) w = performAll as (perform a w)"

text \<open>
  A sequence of \<open>updateRecord\<close> calls made on one render, through the callback of the
  render of \<open>rendered\<close>: every call copies the records of \<open>rendered\<close>, whatever the calls
  before it have set, and gives its list to \<open>setRecords\<close> as a value, which replaces the
  \<open>records\<close> cell of the current state \<open>cur\<close>.
\<close>

fun updateRecordsOnRender :: "jsobj list \<Rightarrow> TableState \<Rightarrow> TableState \<Rightarrow> TableState" where
  "updateRecordsOnRender [] rendered cur = cur"
| "updateRecordsOnRender (r # rs) rendered cur =
     updateRecordsOnRender rs rendered (setRecords (records (updateRecord r rendered)) cur)"

text \<open>
  A sequence of \<open>updateRecord\<close> calls grouped by the render they are made on: the calls
  of one group are made on the render of the state that the groups before it have left.
\<close>

fun updateRecordsRenders :: "jsobj list list \<Rightarrow> TableState \<Rightarrow> TableState" where
  "updateRecordsRenders [] s = s"
| "updateRecordsRenders (calls # rest) s =
     updateRecordsRenders rest (updateRecordsOnRender calls s s)"

text \<open>The tokens that consecutive \<open>refreshTable\<close> calls produce, one per drawn id.\<close>

fun tokens :: "string list \<Rightarrow> TableState \<Rightarrow> string list" where
  "tokens [] s = []"
| "tokens (rid # rids) s = tableKey (refreshTable rid s) # tokens rids (refreshTable rid s)"

subsection \<open>Notions used to state the properties\<close>

text \<open>The \<open>pk\<close> values of a list of records, in order.\<close>

definition pks :: "jsobj list \<Rightarrow> jsprim list" where
  "pks rs = map (\<lambda>r. getProp r ''pk'') rs"

text \<open>Every record has a \<open>pk\<close> of its own: no later record has a strictly equal one.\<close>

fun unique_pk :: "jsobj list \<Rightarrow> bool" where
  "unique_pk [] = True"
| "unique_pk (r # rs) = (\<not> list_ex (samePk r) rs \<and> unique_pk rs)"

text \<open>The last call of every render on which a call is made.\<close>

fun lastCalls :: "jsobj list list \<Rightarrow> jsobj list" where
  "lastCalls [] = []"
| "lastCalls (calls # rest) = (if calls = [] then lastCalls rest else last calls # lastCalls rest)"

text \<open>What the last \<open>setExpandedRecords\<close> of a sequence of calls was given; \<open>cur\<close> is
  the collection before the sequence.\<close>

fun lastExpanded :: "jsval list \<Rightarrow> action list \<Rightarrow> jsval list" where
  "lastExpanded cur [] = cur"
| "lastExpanded cur (SetExpandedRecords es # as) = lastExpanded es as"
| "lastExpanded cur (a # as) = lastExpanded cur as"

text \<open>The filters and the hidden columns last written by a sequence of calls.\<close>

fun lastFilters :: "TableFilter list \<Rightarrow> action list \<Rightarrow> TableFilter list" where
  "lastFilters cur [] = cur"
| "lastFilters cur (SetActiveFilters fs # as) = lastFilters fs as"
| "lastFilters cur (ClearActiveFilters # as) = lastFilters [] as"
| "lastFilters cur (a # as) = lastFilters cur as"

fun lastColumns :: "string list \<Rightarrow> action list \<Rightarrow> string list" where
  "lastColumns cur [] = cur"
| "lastColumns cur (SetHiddenColumns cs # as) = lastColumns cs as"
| "lastColumns cur (a # as) = lastColumns cur as"

text \<open>The part of a table name from its first \<open>-\<close> on (empty when it has none).\<close>

definition fromHyphen :: "string \<Rightarrow> string" where
  "fromHyphen name = dropWhile (\<lambda>c. c \<noteq> CHR ''-'') name"

text \<open>The records and the calls of the specification's example of \<open>updateRecord\<close>.\<close>

definition exampleRecords :: "jsobj list" where
  "exampleRecords =
     [[(''pk'', JNum 1), (''v'', JStr ''a'')], [(''pk'', JNum 2), (''v'', JStr ''b'')]]"

definition exampleCalls :: "jsobj list" where
  "exampleCalls =
     [[(''pk'', JNum 1), (''v'', JStr ''c'')], [(''pk'', JNum 3), (''v'', JStr ''d'')]]"

text \<open>The example's two calls, each made on a render of its own.\<close>

definition exampleRenders :: "jsobj list list" where
  "exampleRenders =
     [[[(''pk'', JNum 1), (''v'', JStr ''c'')]], [[(''pk'', JNum 3), (''v'', JStr ''d'')]]]"

text \<open>A freshly mounted table \<open>parts\<close> over an empty store, holding the example's records.\<close>

definition exampleState :: TableState where
  "exampleState = setRecords exampleRecords (useTable ''parts'' ''mantine-r1'' [])"

text \<open>A cache whose second and third records have no \<open>pk\<close> property.\<close>

definition pklessRecords :: "jsobj list" where
  "pklessRecords =
     [[(''pk'', JNum 7), (''v'', JStr ''a'')], [(''id'', JNum 1), (''v'', JStr ''b'')],
      [(''id'', JNum 2), (''v'', JStr ''c'')]]"

text \<open>A filter, and a sequence of calls that writes both persisted cells.\<close>

definition exampleFilter :: TableFilter where
  "exampleFilter = [(''name'', JStr ''allocated''), (''value'', JStr ''true'')]"

definition exampleActions :: "action list" where
  "exampleActions =
     [SetActiveFilters [exampleFilter], SetExpandedRecords [Prim (JNum 3)], SetPage 2,
      SetHiddenColumns [''notes''], SetExpandedRecords [Prim (JNum 7)],
      UpdateRecord [(''pk'', JNum 3)]]"

section \<open>Properties\<close>

subsection \<open>\<open>findIndex\<close> and strict equality of \<open>pk\<close>\<close>

lemma findIndex_lower: "- 1 \<le> findIndex P xs"
  by (induction xs) (auto simp: Let_def)

lemma findIndex_neg_iff: "findIndex P xs < 0 \<longleftrightarrow> (\<forall>x\<in>set xs. \<not> P x)"
  using findIndex_lower [of P]
  by (induction xs) (auto simp: Let_def)

lemma findIndex_first:
  "0 \<le> findIndex P xs \<Longrightarrow>
     nat (findIndex P xs) < length xs \<and> P (xs ! nat (findIndex P xs)) \<and>
     (\<forall>j < nat (findIndex P xs). \<not> P (xs ! j))"
proof (induction xs)
  case Nil
  then show ?case by simp
next
  case (Cons x xs)
  show ?case
  proof (cases "P x")
    case True
    then show ?thesis by simp
  next
    case False
    with Cons.prems have nn: "0 \<le> findIndex P xs"
      by (simp add: Let_def split: if_splits)
    then have eq: "nat (findIndex P (x # xs)) = Suc (nat (findIndex P xs))"
      using False by (simp add: Let_def nat_add_distrib)
    from Cons.IH [OF nn] False show ?thesis
      unfolding eq by (auto simp: nth_Cons split: nat.splits)
  qed
qed

lemma samePk_sym: "samePk a b \<Longrightarrow> samePk b a"
  by (auto simp: samePk_def strict_eq_def)

lemma samePk_trans: "samePk a b \<Longrightarrow> samePk b c \<Longrightarrow> samePk a c"
  by (auto simp: samePk_def strict_eq_def)

lemma samePk_pk: "samePk a b \<Longrightarrow> getProp a ''pk'' = getProp b ''pk''"
  by (auto simp: samePk_def strict_eq_def)

lemma unique_pk_nth:
  "unique_pk rs \<longleftrightarrow>
     (\<forall>i < length rs. \<forall>j < length rs. samePk (rs ! i) (rs ! j) \<longrightarrow> i = j)"
proof (induction rs)
  case Nil
  then show ?case by simp
next
  case (Cons r rs)
  show ?case
  proof
    assume u: "unique_pk (r # rs)"
    then have no: "\<forall>x\<in>set rs. \<not> samePk r x" and ih: "unique_pk rs"
      by (auto simp: list_ex_iff)
    show "\<forall>i < length (r # rs). \<forall>j < length (r # rs). samePk ((r # rs) ! i) ((r # rs) ! j) \<longrightarrow> i = j"
    proof (intro allI impI)
      fix i j assume i: "i < length (r # rs)" and j: "j < length (r # rs)"
        and s: "samePk ((r # rs) ! i) ((r # rs) ! j)"
      show "i = j"
      proof (cases i)
        case 0
        then show ?thesis using s j no by (cases j) (auto)
      next
        case (Suc i')
        show ?thesis
        proof (cases j)
          case 0
          with s i no \<open>i = Suc i'\<close> samePk_sym [of "rs ! i'" r] nth_mem [of i' rs]
          show ?thesis by auto
        next
          case (Suc j')
          then show ?thesis using s i j \<open>i = Suc i'\<close> ih Cons.IH by auto
        qed
      qed
    qed
  next
    assume a: "\<forall>i < length (r # rs). \<forall>j < length (r # rs). samePk ((r # rs) ! i) ((r # rs) ! j) \<longrightarrow> i = j"
    have "\<not> samePk r x" if "x \<in> set rs" for x
    proof
      assume s: "samePk r x"
      from that obtain k where k: "k < length rs" "rs ! k = x" by (auto simp: in_set_conv_nth)
      from a [rule_format, of 0 "Suc k"] k s show False by simp
    qed
    moreover have "unique_pk rs"
    proof -
      have "\<forall>i < length rs. \<forall>j < length rs. samePk (rs ! i) (rs ! j) \<longrightarrow> i = j"
      proof (intro allI impI)
        fix i j assume "i < length rs" "j < length rs" "samePk (rs ! i) (rs ! j)"
        with a [rule_format, of "Suc i" "Suc j"] show "i = j" by simp
      qed
      with Cons.IH show ?thesis by simp
    qed
    ultimately show "unique_pk (r # rs)" by (simp add: list_ex_iff)
  qed
qed

lemma records_updateRecord:
  "records (updateRecord rec s) =
     (if 0 \<le> findIndex (samePk rec) (records s)
      then (records s)[nat (findIndex (samePk rec) (records s)) := rec]
      else records s @ [rec])"
  by (simp add: updateRecord_def setRecords_def Let_def)

lemma records_updateRecord_append:
  "\<forall>x\<in>set (records s). \<not> samePk rec x \<Longrightarrow> records (updateRecord rec s) = records s @ [rec]"
  using findIndex_neg_iff [of "samePk rec" "records s"]
  by (simp add: records_updateRecord)

lemma records_updateRecord_replace:
  assumes u: "unique_pk (records s)" and i: "i < length (records s)"
    and m: "samePk rec (records s ! i)"
  shows "records (updateRecord rec s) = (records s)[i := rec]"
proof -
  let ?k = "findIndex (samePk rec) (records s)"
  have "\<not> (\<forall>x\<in>set (records s). \<not> samePk rec x)" using i m nth_mem [of i "records s"] by auto
  then have nn: "0 \<le> ?k" using findIndex_neg_iff [of "samePk rec" "records s"] by auto
  from findIndex_first [OF nn] have k: "nat ?k < length (records s)" "samePk rec (records s ! nat ?k)"
    by simp_all
  have "samePk (records s ! nat ?k) (records s ! i)"
    using samePk_trans [OF samePk_sym [OF k(2)] m] .
  with u k(1) i have "nat ?k = i" by (simp add: unique_pk_nth)
  with nn show ?thesis by (simp add: records_updateRecord)
qed

lemma unique_pk_updateRecord:
  assumes u: "unique_pk (records s)"
  shows "unique_pk (records (updateRecord rec s))"
proof (cases "\<forall>x\<in>set (records s). \<not> samePk rec x")
  case True
  have "unique_pk (xs @ [rec])" if "unique_pk xs" "\<forall>x\<in>set xs. \<not> samePk rec x" for xs
    using that by (induction xs) (auto simp: list_ex_iff dest: samePk_sym)
  with u True show ?thesis by (simp add: records_updateRecord_append)
next
  case False
  then obtain i where i: "i < length (records s)" "samePk rec (records s ! i)"
    by (auto simp: in_set_conv_nth)
  have "\<forall>a < length (records s). \<forall>b < length (records s).
          samePk ((records s)[i := rec] ! a) ((records s)[i := rec] ! b) \<longrightarrow> a = b"
  proof (intro allI impI)
    fix a b assume a: "a < length (records s)" and b: "b < length (records s)"
      and s: "samePk ((records s)[i := rec] ! a) ((records s)[i := rec] ! b)"
    have old: "samePk (records s ! a) (records s ! b)"
    proof -
      have ea: "samePk ((records s)[i := rec] ! a) (records s ! a)"
        using a i s by (cases "a = i") (auto simp: samePk_def strict_eq_def)
      have eb: "samePk ((records s)[i := rec] ! b) (records s ! b)"
        using b i s by (cases "b = i") (auto simp: samePk_def strict_eq_def)
      from samePk_trans [OF samePk_sym [OF ea] samePk_trans [OF s eb]] show ?thesis .
    qed
    with u a b show "a = b" by (simp add: unique_pk_nth)
  qed
  then have "unique_pk ((records s)[i := rec])" by (simp add: unique_pk_nth)
  with records_updateRecord_replace [OF u i] show ?thesis by simp
qed

lemma updateRecordsOnRender_last:
  "updateRecordsOnRender calls rendered cur =
     (if calls = [] then cur
      else setRecords (records (updateRecord (last calls) rendered)) cur)"
  by (induction calls arbitrary: cur) (simp_all add: setRecords_def)

lemma updateRecordsOnRender_self:
  "updateRecordsOnRender calls s s = (if calls = [] then s else updateRecord (last calls) s)"
  by (simp add: updateRecordsOnRender_last) (simp add: updateRecord_def setRecords_def Let_def)

lemma unique_pk_updateRecordsRenders:
  "unique_pk (records s) \<Longrightarrow> unique_pk (records (updateRecordsRenders renders s))"
  by (induction renders arbitrary: s)
    (simp_all add: updateRecordsOnRender_self unique_pk_updateRecord)

lemma pks_simps [simp]: "pks [] = []" "pks (r # rs) = getProp r ''pk'' # pks rs"
  "pks (xs @ ys) = pks xs @ pks ys"
  by (simp_all add: pks_def)

lemma pks_updateRecord:
  "pks (records (updateRecord rec s)) =
     (if \<forall>x\<in>set (records s). \<not> samePk rec x then pks (records s) @ [getProp rec ''pk'']
      else pks (records s))"
proof (cases "\<forall>x\<in>set (records s). \<not> samePk rec x")
  case True
  then show ?thesis by (simp add: records_updateRecord_append)
next
  case False
  let ?k = "findIndex (samePk rec) (records s)"
  from False have nn: "0 \<le> ?k" using findIndex_neg_iff [of "samePk rec" "records s"] by auto
  from findIndex_first [OF nn] have k: "nat ?k < length (records s)" "samePk rec (records s ! nat ?k)"
    by simp_all
  have "pks ((records s)[nat ?k := rec]) = (pks (records s))[nat ?k := getProp rec ''pk'']"
    by (simp add: pks_def map_update)
  also have "\<dots> = pks (records s)"
    using k samePk_pk [OF k(2)] by (simp add: pks_def list_update_same_conv)
  finally show ?thesis using False nn by (simp add: records_updateRecord)
qed

lemma pks_updateRecordsRenders_prefix:
  "prefix (pks (records s)) (pks (records (updateRecordsRenders renders s)))"
proof (induction renders arbitrary: s)
  case Nil
  then show ?case by simp
next
  case (Cons calls renders)
  have "prefix (pks (records s)) (pks (records (updateRecordsOnRender calls s s)))"
    by (simp add: updateRecordsOnRender_self pks_updateRecord)
  also have "prefix \<dots>
      (pks (records (updateRecordsRenders renders (updateRecordsOnRender calls s s))))"
    by (rule Cons.IH)
  finally show ?case by simp
qed

lemma set_pks_updateRecord:
  "set (pks (records (updateRecord rec s))) = insert (getProp rec ''pk'') (set (pks (records s)))"
proof (cases "\<forall>x\<in>set (records s). \<not> samePk rec x")
  case True
  then show ?thesis by (simp add: pks_updateRecord)
next
  case False
  then obtain x where "x \<in> set (records s)" "samePk rec x" by auto
  then have "getProp rec ''pk'' \<in> set (pks (records s))"
    using samePk_pk [of rec x] by (auto simp: pks_def)
  with False show ?thesis by (auto simp: pks_updateRecord)
qed

lemma set_pks_updateRecordsRenders:
  "set (pks (records (updateRecordsRenders renders s))) =
     set (pks (records s)) \<union> set (pks (lastCalls renders))"
  by (induction renders arbitrary: s)
    (auto simp: updateRecordsOnRender_self set_pks_updateRecord)

lemma lastCalls_single:
  "\<forall>calls\<in>set renders. length calls = 1 \<Longrightarrow> lastCalls renders = concat renders"
proof (induction renders)
  case Nil
  then show ?case by simp
next
  case (Cons calls renders)
  then obtain c where "calls = [c]" by (cases calls) auto
  with Cons show ?case by simp
qed

lemma example_run:
  "records (updateRecordsRenders exampleRenders exampleState) =
     [[(''pk'', JNum 1), (''v'', JStr ''c'')], [(''pk'', JNum 2), (''v'', JStr ''b'')],
      [(''pk'', JNum 3), (''v'', JStr ''d'')]]"
  by (simp add: exampleState_def exampleRenders_def exampleRecords_def updateRecord_def
      setRecords_def useTable_def samePk_def strict_eq_def getProp_def Let_def)

subsection \<open>\<open>updateRecord\<close> is an upsert by \<open>pk\<close>\<close>

text \<open>
  Claim C1, as stated, fails for two calls made on the same render. The specification's
  example, its two calls made one after the other through the same callback: the second
  call copies the records that the render saw, so the replacement made by the first call
  is lost and the entry with \<open>pk\<close> 1 is still the old one.
\<close>

theorem updateRecord_same_render_counterexample:
  "unique_pk (records exampleState) \<and>
   records (updateRecordsOnRender exampleCalls exampleState exampleState) =
     [[(''pk'', JNum 1), (''v'', JStr ''a'')], [(''pk'', JNum 2), (''v'', JStr ''b'')],
      [(''pk'', JNum 3), (''v'', JStr ''d'')]]"
  by (simp add: exampleState_def exampleCalls_def exampleRecords_def updateRecord_def
      setRecords_def useTable_def samePk_def strict_eq_def getProp_def Let_def)

text \<open>
  Claim C1, amended. Let every record of the list have a \<open>pk\<close> of its own (no two records
  at different positions have strictly equal \<open>pk\<close> values), and let \<open>updateRecord\<close> calls
  be made in any number, on any renders. Then this still holds of the resulting list;
  the \<open>pk\<close> values of the entries that were there keep their positions, the new ones
  coming after them; of the calls made on one render only the last has an effect, and the
  \<open>pk\<close> values present are those of the list and of the last call of every render. So
  when every call is made on a render of its own, there is exactly one entry for every
  \<open>pk\<close> of the list and of the calls. A call made on the render of the resulting state
  writes its record at the index \<open>i\<close> of the entry with an equal \<open>pk\<close> and changes nothing
  else, or appends the record when no entry has an equal \<open>pk\<close>.
\<close>

theorem updateRecord_upsert:
  assumes "unique_pk (records s)"
  shows "unique_pk (records (updateRecordsRenders renders s)) \<and>
         prefix (pks (records s)) (pks (records (updateRecordsRenders renders s))) \<and>
         (calls \<noteq> [] \<longrightarrow> updateRecordsOnRender calls s s = updateRecord (last calls) s) \<and>
         set (pks (records (updateRecordsRenders renders s))) =
           set (pks (records s)) \<union> set (pks (lastCalls renders)) \<and>
         ((\<forall>calls\<in>set renders. length calls = 1) \<longrightarrow>
            set (pks (records (updateRecordsRenders renders s))) =
              set (pks (records s)) \<union> set (pks (concat renders))) \<and>
         (\<forall>rec i. i < length (records (updateRecordsRenders renders s)) \<and>
                  samePk rec (records (updateRecordsRenders renders s) ! i) \<longrightarrow>
            records (updateRecord rec (updateRecordsRenders renders s)) =
              (records (updateRecordsRenders renders s))[i := rec]) \<and>
         (\<forall>rec. (\<forall>x\<in>set (records (updateRecordsRenders renders s)). \<not> samePk rec x) \<longrightarrow>
            records (updateRecord rec (updateRecordsRenders renders s)) =
              records (updateRecordsRenders renders s) @ [rec])"
proof -
  have u: "unique_pk (records (updateRecordsRenders renders s))"
    using assms by (rule unique_pk_updateRecordsRenders)
  have l: "calls \<noteq> [] \<longrightarrow> updateRecordsOnRender calls s s = updateRecord (last calls) s"
    by (simp add: updateRecordsOnRender_self)
  have e: "(\<forall>calls\<in>set renders. length calls = 1) \<longrightarrow>
            set (pks (records (updateRecordsRenders renders s))) =
              set (pks (records s)) \<union> set (pks (concat renders))"
    using set_pks_updateRecordsRenders [of renders s] lastCalls_single [of renders] by simp
  show ?thesis
    using u l e pks_updateRecordsRenders_prefix [of s renders]
      set_pks_updateRecordsRenders [of renders s]
      records_updateRecord_replace [OF u] records_updateRecord_append
    by blast
qed

text \<open>The specification's example, each call on its own render, followed by one more
  update and one more insertion.\<close>

theorem updateRecord_upsert_witness:
  "unique_pk (records exampleState) \<and>
   map length exampleRenders = [1, 1] \<and>
   unique_pk (records (updateRecordsRenders exampleRenders exampleState)) \<and>
   set (pks (records (updateRecordsRenders exampleRenders exampleState))) =
     {JNum 1, JNum 2, JNum 3} \<and>
   records (updateRecordsRenders exampleRenders exampleState) =
     [[(''pk'', JNum 1), (''v'', JStr ''c'')], [(''pk'', JNum 2), (''v'', JStr ''b'')],
      [(''pk'', JNum 3), (''v'', JStr ''d'')]] \<and>
   updateRecordsOnRender exampleCalls exampleState exampleState =
     updateRecord [(''pk'', JNum 3), (''v'', JStr ''d'')] exampleState \<and>
   records (updateRecord [(''pk'', JNum 2), (''v'', JStr ''e'')]
      (updateRecordsRenders exampleRenders exampleState)) =
     [[(''pk'', JNum 1), (''v'', JStr ''c'')], [(''pk'', JNum 2), (''v'', JStr ''e'')],
      [(''pk'', JNum 3), (''v'', JStr ''d'')]] \<and>
   records (updateRecord [(''pk'', JNum 4), (''v'', JStr ''f'')]
      (updateRecordsRenders exampleRenders exampleState)) =
     [[(''pk'', JNum 1), (''v'', JStr ''c'')], [(''pk'', JNum 2), (''v'', JStr ''b'')],
      [(''pk'', JNum 3), (''v'', JStr ''d'')], [(''pk'', JNum 4), (''v'', JStr ''f'')]]"
proof -
  let ?s = "updateRecordsRenders exampleRenders exampleState"
  have h: "unique_pk (records exampleState)"
    by (simp add: exampleState_def exampleRecords_def setRecords_def useTable_def samePk_def
        strict_eq_def getProp_def)
  have g: "\<forall>calls\<in>set exampleRenders. length calls = 1"
    by (simp add: exampleRenders_def)
  have n: "exampleCalls \<noteq> []" by (simp add: exampleCalls_def)
  note t = updateRecord_upsert [OF h, of exampleRenders exampleCalls]
  from t have u: "unique_pk (records ?s)" by blast
  from t g have k: "set (pks (records ?s)) =
      set (pks (records exampleState)) \<union> set (pks (concat exampleRenders))"
    by blast
  from t n have o: "updateRecordsOnRender exampleCalls exampleState exampleState =
      updateRecord (last exampleCalls) exampleState"
    by blast
  from t have r: "1 < length (records ?s) \<and>
       samePk [(''pk'', JNum 2), (''v'', JStr ''e'')] (records ?s ! 1) \<longrightarrow>
     records (updateRecord [(''pk'', JNum 2), (''v'', JStr ''e'')] ?s) =
       (records ?s)[1 := [(''pk'', JNum 2), (''v'', JStr ''e'')]]"
    by blast
  from t have a: "(\<forall>x\<in>set (records ?s). \<not> samePk [(''pk'', JNum 4), (''v'', JStr ''f'')] x) \<longrightarrow>
     records (updateRecord [(''pk'', JNum 4), (''v'', JStr ''f'')] ?s) =
       records ?s @ [[(''pk'', JNum 4), (''v'', JStr ''f'')]]"
    by blast
  have k': "set (pks (records ?s)) = {JNum 1, JNum 2, JNum 3}"
    by (simp add: example_run getProp_def) 
  have o': "updateRecordsOnRender exampleCalls exampleState exampleState =
     updateRecord [(''pk'', JNum 3), (''v'', JStr ''d'')] exampleState"
    using o by (simp add: exampleCalls_def)
  have g': "map length exampleRenders = [1, 1]"
    by (simp add: exampleRenders_def)
  show ?thesis
    using h g' u k k' o' r a by (simp add: example_run samePk_def strict_eq_def getProp_def)
qed

subsection \<open>\<open>updateRecord\<close> on records without \<open>pk\<close>\<close>

lemma samePk_undefined:
  "getProp rec ''pk'' = JUndefined \<Longrightarrow> samePk rec x = (getProp x ''pk'' = JUndefined)"
  by (auto simp: samePk_def strict_eq_def)

text \<open>
  Claim C2, evaluated: the cache holds two records without \<open>pk\<close>, with \<open>id\<close> 1 and 2,
  and \<open>updateRecord\<close> is given a record with \<open>id\<close> 2 and no \<open>pk\<close>. The comparison
  \<open>r.pk === record.pk\<close> is \<open>undefined === undefined\<close> at the first record, so the record
  with \<open>id\<close> 1 is overwritten and the cache ends with two records of \<open>id\<close> 2; the
  \<open>id\<close> that \<open>selectedIds\<close> falls back to is never read.
\<close>

theorem updateRecord_id_fallback_missing:
  "records (updateRecord [(''id'', JNum 2), (''v'', JStr ''c'')]
      (setRecords [[(''id'', JNum 1), (''v'', JStr ''a'')], [(''id'', JNum 2), (''v'', JStr ''b'')]]
         (useTable ''parts'' ''mantine-r1'' []))) =
   [[(''id'', JNum 2), (''v'', JStr ''c'')], [(''id'', JNum 2), (''v'', JStr ''b'')]]"
  by (simp add: updateRecord_def setRecords_def useTable_def samePk_def
      strict_eq_def getProp_def Let_def)

text \<open>
  Claim C10. When the record given to \<open>updateRecord\<close> has no \<open>pk\<close> (its \<open>pk\<close> reads
  \<open>undefined\<close>) and some record of the cache has none either, the call writes the record
  at the index \<open>k\<close> of the first record of the cache without \<open>pk\<close>, and appends nothing.
\<close>

theorem updateRecord_pkless_replaces_first:
  assumes "getProp rec ''pk'' = JUndefined"
    and "\<exists>x\<in>set (records s). getProp x ''pk'' = JUndefined"
  shows "\<exists>k < length (records s).
           getProp (records s ! k) ''pk'' = JUndefined \<and>
           (\<forall>j < k. getProp (records s ! j) ''pk'' \<noteq> JUndefined) \<and>
           records (updateRecord rec s) = (records s)[k := rec]"
proof -
  let ?k = "findIndex (samePk rec) (records s)"
  from assms have "\<not> (\<forall>x\<in>set (records s). \<not> samePk rec x)"
    by (simp add: samePk_undefined)
  then have nn: "0 \<le> ?k" using findIndex_neg_iff [of "samePk rec" "records s"] by auto
  from findIndex_first [OF nn] assms(1)
  have "nat ?k < length (records s)" "getProp (records s ! nat ?k) ''pk'' = JUndefined"
    "\<forall>j < nat ?k. getProp (records s ! j) ''pk'' \<noteq> JUndefined"
    by (simp_all add: samePk_undefined)
  moreover have "records (updateRecord rec s) = (records s)[nat ?k := rec]"
    using nn by (simp add: records_updateRecord)
  ultimately show ?thesis by blast
qed

theorem updateRecord_pkless_replaces_first_witness:
  "getProp [(''id'', JNum 2), (''v'', JStr ''d'')] ''pk'' = JUndefined \<and>
   (\<exists>x\<in>set (records (setRecords pklessRecords exampleState)). getProp x ''pk'' = JUndefined) \<and>
   (\<exists>k < length (records (setRecords pklessRecords exampleState)).
      getProp (records (setRecords pklessRecords exampleState) ! k) ''pk'' = JUndefined \<and>
      (\<forall>j < k. getProp (records (setRecords pklessRecords exampleState) ! j) ''pk'' \<noteq> JUndefined) \<and>
      records (updateRecord [(''id'', JNum 2), (''v'', JStr ''d'')]
         (setRecords pklessRecords exampleState)) =
      (records (setRecords pklessRecords exampleState))[k := [(''id'', JNum 2), (''v'', JStr ''d'')]]) \<and>
   records (updateRecord [(''id'', JNum 2), (''v'', JStr ''d'')]
      (setRecords pklessRecords exampleState)) =
     [[(''pk'', JNum 7), (''v'', JStr ''a'')], [(''id'', JNum 2), (''v'', JStr ''d'')],
      [(''id'', JNum 2), (''v'', JStr ''c'')]]"
proof -
  let ?s = "setRecords pklessRecords exampleState"
  have h1: "getProp [(''id'', JNum 2), (''v'', JStr ''d'')] ''pk'' = JUndefined"
    by (simp add: getProp_def)
  have h2: "\<exists>x\<in>set (records ?s). getProp x ''pk'' = JUndefined"
    by (simp add: pklessRecords_def setRecords_def getProp_def)
  have r: "records (updateRecord [(''id'', JNum 2), (''v'', JStr ''d'')] ?s) =
     [[(''pk'', JNum 7), (''v'', JStr ''a'')], [(''id'', JNum 2), (''v'', JStr ''d'')],
      [(''id'', JNum 2), (''v'', JStr ''c'')]]"
    by (simp add: pklessRecords_def updateRecord_def setRecords_def samePk_def strict_eq_def
        getProp_def Let_def)
  from updateRecord_pkless_replaces_first [OF h1 h2] h1 h2 r show ?thesis by blast
qed

subsection \<open>Row expansion\<close>

lemma includes_arr_iff: "includes_arr xs k \<longleftrightarrow> Prim k \<in> set xs"
proof -
  have "same_value_zero e k \<longleftrightarrow> e = Prim k" for e
    by (cases e) auto
  then show ?thesis by (auto simp: includes_arr_def list_ex_iff)
qed

lemma expandedRecords_perform:
  "expandedRecords (fst (perform a w)) = lastExpanded (expandedRecords (fst w)) [a]"
  by (cases a)
    (simp_all add: refreshTable_def setActiveFilters_def clearActiveFilters_def
      setExpandedRecords_def setSelectedRecords_def clearSelectedRecords_def setRecordCount_def
      setPage_def setPageSize_def setHiddenColumns_def setSearchTerm_def setRecords_def
      updateRecord_def setIsLoading_def setEditable_def Let_def)

lemma lastExpanded_Cons: "lastExpanded cur (a # as) = lastExpanded (lastExpanded cur [a]) as"
  by (cases a) simp_all

lemma expandedRecords_performAll:
  "expandedRecords (fst (performAll as w)) = lastExpanded (expandedRecords (fst w)) as"
proof (induction as arbitrary: w)
  case Nil
  then show ?case by simp
next
  case (Cons a as)
  have "expandedRecords (fst (performAll (a # as) w)) =
        lastExpanded (expandedRecords (fst (perform a w))) as"
    using Cons.IH [of "perform a w"] by simp
  also have "\<dots> = lastExpanded (expandedRecords (fst w)) (a # as)"
    by (simp add: expandedRecords_perform lastExpanded_Cons [of _ a as])
  finally show ?case .
qed

lemma isRowExpanded_objects: "isRowExpanded (setExpandedRecords (map Obj rs) s) pk = False"
  by (auto simp: isRowExpanded_def includes_arr_iff setExpandedRecords_def)

text \<open>
  Claim C3. After \<open>setExpandedRecords es\<close>, \<open>isRowExpanded pk\<close> holds exactly when the
  value \<open>pk\<close> is a member of \<open>es\<close>; and after any sequence of calls, exactly when \<open>pk\<close>
  is a member of the collection that the last \<open>setExpandedRecords\<close> of the sequence was
  given (of the collection before the sequence, when it has none).
\<close>

theorem isRowExpanded_membership:
  "isRowExpanded (setExpandedRecords es s) pk = (Prim pk \<in> set es) \<and>
   isRowExpanded (fst (performAll as (s, st))) pk =
     (Prim pk \<in> set (lastExpanded (expandedRecords s) as))"
  by (simp add: isRowExpanded_def includes_arr_iff expandedRecords_performAll
      setExpandedRecords_def)

theorem isRowExpanded_membership_witness:
  "isRowExpanded (setExpandedRecords [Prim (JNum 3), Prim (JNum 5)] exampleState) (JNum 5) \<and>
   \<not> isRowExpanded (setExpandedRecords [Prim (JNum 3), Prim (JNum 5)] exampleState) (JNum 4) \<and>
   isRowExpanded (fst (performAll exampleActions (exampleState, []))) (JNum 7) \<and>
   \<not> isRowExpanded (fst (performAll exampleActions (exampleState, []))) (JNum 3)"
  using isRowExpanded_membership [of "[Prim (JNum 3), Prim (JNum 5)]" exampleState "JNum 5"
      exampleActions "[]"]
    isRowExpanded_membership [of "[Prim (JNum 3), Prim (JNum 5)]" exampleState "JNum 4"
      exampleActions "[]"]
    isRowExpanded_membership [of "[]" exampleState "JNum 7" exampleActions "[]"]
    isRowExpanded_membership [of "[]" exampleState "JNum 3" exampleActions "[]"]
  by (simp add: exampleActions_def)

subsection \<open>The identity token\<close>

lemma generateTableName_inj: "generateTableName name r = generateTableName name r' \<longleftrightarrow> r = r'"
  by (simp add: generateTableName_def)

lemma tableName_refreshTable [simp]: "tableName (refreshTable rid s) = tableName s"
  by (simp add: refreshTable_def)

lemma tableKey_refreshTable: "tableKey (refreshTable rid s) = generateTableName (tableName s) rid"
  by (simp add: refreshTable_def)

lemma tokens_eq: "tokens rids s = map (generateTableName (tableName s)) rids"
  by (induction rids arbitrary: s) (simp_all add: tableKey_refreshTable)

lemma replaceAll_empty: "replaceAll c [] s = filter (\<lambda>x. x \<noteq> c) s"
  by (induction s) (simp_all add: replaceAll_def)

lemma filter_takeWhile_same: "filter P (takeWhile P xs) = takeWhile P xs"
  by (induction xs) simp_all

lemma fromHyphen_cases:
  "fromHyphen name = [] \<or> (\<exists>v. fromHyphen name = CHR ''-'' # v)"
proof (cases "fromHyphen name")
  case Nil
  then show ?thesis by simp
next
  case (Cons c v)
  then have "\<not> c \<noteq> CHR ''-''"
    unfolding fromHyphen_def using hd_dropWhile [of "\<lambda>c. c \<noteq> CHR ''-''" name] by force
  with Cons show ?thesis by simp
qed

lemma prefix_hyphen_tail:
  "prefix (CHR ''-'' # v) (filter (\<lambda>x. x \<noteq> CHR ''-'') v @ CHR ''-'' # rid) \<longleftrightarrow>
     set v \<subseteq> {CHR ''-''} \<and> prefix v rid"
proof (cases "filter (\<lambda>x. x \<noteq> CHR ''-'') v")
  case Nil
  then have "set v \<subseteq> {CHR ''-''}" by (auto simp: filter_empty_conv)
  with Nil show ?thesis by simp
next
  case (Cons c cs)
  then have "c \<in> set (filter (\<lambda>x. x \<noteq> CHR ''-'') v)" by simp
  then have "c \<noteq> CHR ''-''" "c \<in> set v" by auto
  with Cons show ?thesis by auto
qed

lemma prefix_generateTableName_iff:
  "prefix name (generateTableName name rid) \<longleftrightarrow>
     fromHyphen name = [] \<or>
     (set (fromHyphen name) \<subseteq> {CHR ''-''} \<and> prefix (tl (fromHyphen name)) rid)"
proof -
  let ?P = "\<lambda>c. c \<noteq> CHR ''-''"
  have split: "name = takeWhile ?P name @ fromHyphen name"
    by (simp add: fromHyphen_def)
  have "generateTableName name rid =
        filter ?P (takeWhile ?P name @ fromHyphen name) @ ''-'' @ rid"
    using split by (simp add: generateTableName_def replaceAll_empty)
  then have tok: "generateTableName name rid =
        takeWhile ?P name @ (filter ?P (fromHyphen name) @ ''-'' @ rid)"
    by (simp add: filter_takeWhile_same)
  have "prefix name (generateTableName name rid) \<longleftrightarrow>
        prefix (takeWhile ?P name @ fromHyphen name) (takeWhile ?P name @ (filter ?P (fromHyphen name) @ ''-'' @ rid))"
    using split tok by simp
  then have red: "prefix name (generateTableName name rid) \<longleftrightarrow>
        prefix (fromHyphen name) (filter ?P (fromHyphen name) @ ''-'' @ rid)"
    by simp
  from fromHyphen_cases [of name] show ?thesis
  proof
    assume "fromHyphen name = []"
    then show ?thesis using red by simp
  next
    assume "\<exists>v. fromHyphen name = CHR ''-'' # v"
    then obtain v where v: "fromHyphen name = CHR ''-'' # v" by blast
    then show ?thesis using red prefix_hyphen_tail [of v rid] by simp
  qed
qed

text \<open>
  Claim C4, as stated, fails when \<open>randomId()\<close> returns the id it returned before: the
  table name being the same, the two tokens are equal.
\<close>

theorem refreshTable_same_token_counterexample:
  "tableKey (refreshTable ''mantine-abc'' (useTable ''parts'' ''mantine-abc'' [])) =
   tableKey (useTable ''parts'' ''mantine-abc'' [])"
  by (simp add: refreshTable_def useTable_def)

text \<open>
  Claim C4, amended. In the list of tokens of a mount followed by any number of
  consecutive \<open>refreshTable\<close> calls, a token differs from the one before it exactly when
  the random id drawn for it differs from the id drawn before; the same holds for two
  consecutive \<open>refreshTable\<close> calls on any state.
\<close>

theorem refreshTable_token_differs_iff:
  "(\<forall>i. Suc i < length (rid0 # rids) \<longrightarrow>
      ((tableKey (useTable name rid0 st) # tokens rids (useTable name rid0 st)) ! Suc i \<noteq>
       (tableKey (useTable name rid0 st) # tokens rids (useTable name rid0 st)) ! i)
      = ((rid0 # rids) ! Suc i \<noteq> (rid0 # rids) ! i)) \<and>
   (tableKey (refreshTable rid (refreshTable rid' s)) \<noteq> tableKey (refreshTable rid' s)) = (rid \<noteq> rid')"
proof -
  have tn: "tableName (useTable name rid0 st) = name" by (simp add: useTable_def)
  have eq: "tableKey (useTable name rid0 st) # tokens rids (useTable name rid0 st) =
        map (generateTableName name) (rid0 # rids)"
    by (simp add: tokens_eq tn) (simp add: useTable_def)
  show ?thesis
    unfolding eq by (simp add: generateTableName_inj tableKey_refreshTable del: list.map)
qed

theorem refreshTable_token_differs_iff_witness:
  "(tableKey (useTable ''parts'' ''mantine-a'' []) #
      tokens [''mantine-b'', ''mantine-b''] (useTable ''parts'' ''mantine-a'' []))
    = [''parts-mantine-a'', ''parts-mantine-b'', ''parts-mantine-b''] \<and>
   ((tableKey (useTable ''parts'' ''mantine-a'' []) #
      tokens [''mantine-b'', ''mantine-b''] (useTable ''parts'' ''mantine-a'' [])) ! Suc 0 \<noteq>
    (tableKey (useTable ''parts'' ''mantine-a'' []) #
      tokens [''mantine-b'', ''mantine-b''] (useTable ''parts'' ''mantine-a'' [])) ! 0)"
proof -
  from refreshTable_token_differs_iff [of "''mantine-a''" "[''mantine-b'', ''mantine-b'']" "''parts''" "[]"]
  have "Suc 0 < length [''mantine-a'', ''mantine-b'', ''mantine-b''] \<longrightarrow>
      ((tableKey (useTable ''parts'' ''mantine-a'' []) #
          tokens [''mantine-b'', ''mantine-b''] (useTable ''parts'' ''mantine-a'' [])) ! Suc 0 \<noteq>
       (tableKey (useTable ''parts'' ''mantine-a'' []) #
          tokens [''mantine-b'', ''mantine-b''] (useTable ''parts'' ''mantine-a'' [])) ! 0)
      = ([''mantine-a'', ''mantine-b'', ''mantine-b''] ! Suc 0 \<noteq> [''mantine-a'', ''mantine-b'', ''mantine-b''] ! 0)"
    by blast
  then show ?thesis
    by (simp add: useTable_def refreshTable_def generateTableName_def replaceAll_def)
qed

text \<open>
  Claim C9, as stated, fails for a table name whose only \<open>-\<close> is its last character:
  removing it and appending \<open>-\<close> gives the name back, so the token begins with it.
\<close>

theorem token_prefix_counterexample:
  "CHR ''-'' \<in> set ''parts-'' \<and> prefix ''parts-'' (generateTableName ''parts-'' ''mantine-abc'')"
  by (simp add: generateTableName_def replaceAll_def)

text \<open>
  Claim C9, amended. The token made on mount and by \<open>refreshTable\<close> is the table name
  without its \<open>-\<close> characters, followed by \<open>-\<close> and the random id. The token begins
  with the literal table name exactly when the name has no \<open>-\<close>, or has only \<open>-\<close>
  characters from its first \<open>-\<close> on and those after the first begin the random id. So
  when a character other than \<open>-\<close> comes after a \<open>-\<close> of the name, the token does not
  begin with the name. The two persistence keys end with the name as it is.
\<close>

theorem token_prefix_stripped:
  "generateTableName name rid = filter (\<lambda>c. c \<noteq> CHR ''-'') name @ ''-'' @ rid \<and>
   tableKey (useTable name rid st) = generateTableName name rid \<and>
   tableKey (refreshTable rid s) = generateTableName (tableName s) rid \<and>
   (prefix name (generateTableName name rid) \<longleftrightarrow>
      fromHyphen name = [] \<or>
      (set (fromHyphen name) \<subseteq> {CHR ''-''} \<and> prefix (tl (fromHyphen name)) rid)) \<and>
   ((\<exists>c\<in>set (fromHyphen name). c \<noteq> CHR ''-'') \<longrightarrow> \<not> prefix name (generateTableName name rid)) \<and>
   filtersKey name = ''inventree-table-filters-'' @ name \<and>
   columnsKey name = ''inventree-hidden-table-columns-'' @ name"
proof -
  have "(\<exists>c\<in>set (fromHyphen name). c \<noteq> CHR ''-'') \<longrightarrow> \<not> prefix name (generateTableName name rid)"
    unfolding prefix_generateTableName_iff by auto
  then show ?thesis
    using prefix_generateTableName_iff [of name rid]
    by (simp add: generateTableName_def replaceAll_empty useTable_def refreshTable_def
        filtersKey_def columnsKey_def)
qed

theorem token_prefix_stripped_witness:
  "(\<exists>c\<in>set (fromHyphen ''sales-order-line-item''). c \<noteq> CHR ''-'') \<and>
   \<not> prefix ''sales-order-line-item'' (generateTableName ''sales-order-line-item'' ''mantine-abc'') \<and>
   generateTableName ''sales-order-line-item'' ''mantine-abc'' = ''salesorderlineitem-mantine-abc'' \<and>
   filtersKey ''sales-order-line-item'' = ''inventree-table-filters-sales-order-line-item''"
proof -
  have h: "\<exists>c\<in>set (fromHyphen ''sales-order-line-item''). c \<noteq> CHR ''-''"
    by (simp add: fromHyphen_def)
  from token_prefix_stripped [of "''sales-order-line-item''" "''mantine-abc''" "[]" exampleState] h
  show ?thesis by simp
qed

subsection \<open>The initial state\<close>

text \<open>
  Claim C6. The mount of the table \<open>parts\<close>, whatever the random id and the store: the
  token is \<open>parts-\<close> followed by the id, the page is 1, the page size 25, there are no
  records and the record count is 0.
\<close>

theorem useTable_parts_initial:
  "tableKey (useTable ''parts'' rid st) = ''parts-'' @ rid \<and>
   page (useTable ''parts'' rid st) = 1 \<and>
   pageSize (useTable ''parts'' rid st) = 25 \<and>
   records (useTable ''parts'' rid st) = [] \<and>
   recordCount (useTable ''parts'' rid st) = 0"
  by (simp add: useTable_def generateTableName_def replaceAll_def)

subsection \<open>Selection\<close>

text \<open>
  Claim C7. After \<open>setSelectedRecords []\<close> there are no selected ids and
  \<open>hasSelectedRecords\<close> is false. After \<open>setSelectedRecords rs\<close>, \<open>selectedIds\<close> has one
  entry per record of \<open>rs\<close>, in order: the record's \<open>pk\<close>, or its \<open>id\<close> when the \<open>pk\<close>
  is \<open>undefined\<close> or \<open>null\<close>; and \<open>hasSelectedRecords\<close> is true exactly when \<open>rs\<close> is not
  empty.
\<close>

theorem selectedIds_derived:
  "selectedIds (setSelectedRecords [] s) = [] \<and>
   \<not> hasSelectedRecords (setSelectedRecords [] s) \<and>
   length (selectedIds (setSelectedRecords rs s)) = length rs \<and>
   (\<forall>i < length rs. selectedIds (setSelectedRecords rs s) ! i =
      (if getProp (rs ! i) ''pk'' = JUndefined \<or> getProp (rs ! i) ''pk'' = JNull
       then getProp (rs ! i) ''id'' else getProp (rs ! i) ''pk'')) \<and>
   hasSelectedRecords (setSelectedRecords rs s) = (rs \<noteq> [])"
  by (simp add: selectedIds_def hasSelectedRecords_def setSelectedRecords_def nullish_def)

theorem selectedIds_derived_witness:
  "selectedIds (setSelectedRecords [[(''pk'', JNum 4)], [(''id'', JNum 9), (''v'', JStr ''a'')]] exampleState)
     = [JNum 4, JNum 9] \<and>
   hasSelectedRecords (setSelectedRecords [[(''pk'', JNum 4)], [(''id'', JNum 9), (''v'', JStr ''a'')]] exampleState) \<and>
   selectedIds (setSelectedRecords [] exampleState) = [] \<and>
   \<not> hasSelectedRecords (setSelectedRecords [] exampleState)"
proof -
  let ?rs = "[[(''pk'', JNum 4)], [(''id'', JNum 9), (''v'', JStr ''a'')]]"
  note t = selectedIds_derived [of exampleState ?rs]
  from t have l: "length (selectedIds (setSelectedRecords ?rs exampleState)) = 2" by simp
  from t have "\<forall>i < length ?rs. selectedIds (setSelectedRecords ?rs exampleState) ! i =
      (if getProp (?rs ! i) ''pk'' = JUndefined \<or> getProp (?rs ! i) ''pk'' = JNull
       then getProp (?rs ! i) ''id'' else getProp (?rs ! i) ''pk'')" by blast
  then have e: "selectedIds (setSelectedRecords ?rs exampleState) ! 0 = JNum 4"
     "selectedIds (setSelectedRecords ?rs exampleState) ! 1 = JNum 9"
    by (simp_all add: getProp_def)
  have "selectedIds (setSelectedRecords ?rs exampleState) = [JNum 4, JNum 9]"
    using l e by (simp add: list_eq_iff_nth_eq less_Suc_eq numeral_2_eq_2)
  then show ?thesis using t by simp
qed

subsection \<open>The direct setters\<close>

text \<open>
  Claim C8. Each of \<open>setRecordCount\<close>, \<open>setPage\<close>, \<open>setPageSize\<close>, \<open>setIsLoading\<close> and
  \<open>setEditable\<close> gives its field the new value, and putting the old value of that one
  field back gives the state before the call: no other field has changed. In particular
  \<open>setPageSize\<close> leaves \<open>page\<close> as it is. None of them writes to the store.
\<close>

theorem setters_frame:
  "(setRecordCount n s)\<lparr>recordCount := recordCount s\<rparr> = s \<and> recordCount (setRecordCount n s) = n \<and>
   (setPage n s)\<lparr>page := page s\<rparr> = s \<and> page (setPage n s) = n \<and>
   (setPageSize n s)\<lparr>pageSize := pageSize s\<rparr> = s \<and> pageSize (setPageSize n s) = n \<and>
   page (setPageSize n s) = page s \<and>
   (setIsLoading b s)\<lparr>isLoading := isLoading s\<rparr> = s \<and> isLoading (setIsLoading b s) = b \<and>
   (setEditable b s)\<lparr>editable := editable s\<rparr> = s \<and> editable (setEditable b s) = b \<and>
   snd (perform (SetRecordCount n) (s, st)) = st \<and>
   snd (perform (SetPage n) (s, st)) = st \<and>
   snd (perform (SetPageSize n) (s, st)) = st \<and>
   snd (perform (SetIsLoading b) (s, st)) = st \<and>
   snd (perform (SetEditable b) (s, st)) = st"
  by (simp add: setRecordCount_def setPage_def setPageSize_def setIsLoading_def setEditable_def)

subsection \<open>Persisted filters and hidden columns\<close>

lemma map_of_filter_key:
  "map_of (filter (\<lambda>kv. fst kv \<noteq> k) st) k' = (if k' = k then None else map_of st k')"
  by (induction st) auto

lemma getItem_setItem:
  "getItem (setItem k v st) k' = (if k' = k then Some v else getItem st k')"
  by (simp add: getItem_def setItem_def map_of_filter_key)

lemma filtersKey_inj [simp]: "filtersKey n = filtersKey m \<longleftrightarrow> n = m"
  by (simp add: filtersKey_def)

lemma columnsKey_inj [simp]: "columnsKey n = columnsKey m \<longleftrightarrow> n = m"
  by (simp add: columnsKey_def)

lemma filtersKey_neq_columnsKey [simp]:
  "filtersKey n \<noteq> columnsKey m" "columnsKey m \<noteq> filtersKey n"
  by (simp_all add: filtersKey_def columnsKey_def)

lemma tableName_perform [simp]: "tableName (fst (perform a w)) = tableName (fst w)"
  by (cases a)
    (simp_all add: refreshTable_def setActiveFilters_def clearActiveFilters_def
      setExpandedRecords_def setSelectedRecords_def clearSelectedRecords_def setRecordCount_def
      setPage_def setPageSize_def setHiddenColumns_def setSearchTerm_def setRecords_def
      updateRecord_def setIsLoading_def setEditable_def Let_def)

lemma readFilters_perform:
  "readFilters (snd (perform a w)) name =
     (if name = tableName (fst w) then lastFilters (readFilters (snd w) name) [a]
      else readFilters (snd w) name)"
  by (cases a)
    (simp_all add: readFilters_def getItem_setItem setActiveFilters_def clearActiveFilters_def
      setHiddenColumns_def)

lemma readColumns_perform:
  "readColumns (snd (perform a w)) name =
     (if name = tableName (fst w) then lastColumns (readColumns (snd w) name) [a]
      else readColumns (snd w) name)"
  by (cases a)
    (simp_all add: readColumns_def getItem_setItem setActiveFilters_def clearActiveFilters_def
      setHiddenColumns_def)

lemma lastFilters_Cons: "lastFilters cur (a # as) = lastFilters (lastFilters cur [a]) as"
  by (cases a) simp_all

lemma lastColumns_Cons: "lastColumns cur (a # as) = lastColumns (lastColumns cur [a]) as"
  by (cases a) simp_all

lemma readFilters_performAll:
  "readFilters (snd (performAll as w)) name =
     (if name = tableName (fst w) then lastFilters (readFilters (snd w) name) as
      else readFilters (snd w) name)"
proof (induction as arbitrary: w)
  case Nil
  then show ?case by simp
next
  case (Cons a as)
  show ?case
  proof (cases "name = tableName (fst w)")
    case True
    then show ?thesis
      using Cons.IH [of "perform a w"] lastFilters_Cons [of "readFilters (snd w) name" a as]
      by (simp add: readFilters_perform)
  next
    case False
    then show ?thesis
      using Cons.IH [of "perform a w"] by (simp add: readFilters_perform)
  qed
qed

lemma readColumns_performAll:
  "readColumns (snd (performAll as w)) name =
     (if name = tableName (fst w) then lastColumns (readColumns (snd w) name) as
      else readColumns (snd w) name)"
proof (induction as arbitrary: w)
  case Nil
  then show ?case by simp
next
  case (Cons a as)
  show ?case
  proof (cases "name = tableName (fst w)")
    case True
    then show ?thesis
      using Cons.IH [of "perform a w"] lastColumns_Cons [of "readColumns (snd w) name" a as]
      by (simp add: readColumns_perform)
  next
    case False
    then show ?thesis
      using Cons.IH [of "perform a w"] by (simp add: readColumns_perform)
  qed
qed

lemma useTable_persisted [simp]:
  "activeFilters (useTable name rid st) = readFilters st name"
  "hiddenColumns (useTable name rid st) = readColumns st name"
  by (simp_all add: useTable_def)

text \<open>
  Claim C5. \<open>setActiveFilters\<close> and \<open>setHiddenColumns\<close> store their argument under the
  keys \<open>inventree-table-filters-\<close> and \<open>inventree-hidden-table-columns-\<close> followed by the
  table name. A mount with the same table name reads back what was written, also after
  any further calls: it reads the value last written by the sequence. A mount over the
  empty store reads the empty defaults, and so does a mount with a name for which the
  store holds nothing, after any sequence of calls made on a table of another name.
\<close>

theorem persisted_roundtrip:
  "getItem (snd (setActiveFilters fs (s, st))) (''inventree-table-filters-'' @ tableName s)
     = Some (StoredFilters fs) \<and>
   getItem (snd (setHiddenColumns cs (s, st))) (''inventree-hidden-table-columns-'' @ tableName s)
     = Some (StoredColumns cs) \<and>
   activeFilters (useTable (tableName s) rid (snd (setActiveFilters fs (s, st)))) = fs \<and>
   hiddenColumns (useTable (tableName s) rid (snd (setHiddenColumns cs (s, st)))) = cs \<and>
   activeFilters (useTable (tableName s) rid (snd (performAll as (s, st))))
     = lastFilters (readFilters st (tableName s)) as \<and>
   hiddenColumns (useTable (tableName s) rid (snd (performAll as (s, st))))
     = lastColumns (readColumns st (tableName s)) as \<and>
   activeFilters (useTable name rid []) = [] \<and>
   hiddenColumns (useTable name rid []) = [] \<and>
   (name \<noteq> tableName s \<and> getItem st (filtersKey name) = None \<and>
    getItem st (columnsKey name) = None \<longrightarrow>
      activeFilters (useTable name rid (snd (performAll as (s, st)))) = [] \<and>
      hiddenColumns (useTable name rid (snd (performAll as (s, st)))) = [])"
proof -
  have a: "getItem (snd (setActiveFilters fs (s, st))) (''inventree-table-filters-'' @ tableName s)
     = Some (StoredFilters fs)"
    by (simp add: setActiveFilters_def getItem_setItem filtersKey_def)
  have b: "getItem (snd (setHiddenColumns cs (s, st))) (''inventree-hidden-table-columns-'' @ tableName s)
     = Some (StoredColumns cs)"
    by (simp add: setHiddenColumns_def getItem_setItem columnsKey_def)
  have c: "activeFilters (useTable (tableName s) rid (snd (setActiveFilters fs (s, st)))) = fs"
    by (simp add: readFilters_def setActiveFilters_def getItem_setItem)
  have d: "hiddenColumns (useTable (tableName s) rid (snd (setHiddenColumns cs (s, st)))) = cs"
    by (simp add: readColumns_def setHiddenColumns_def getItem_setItem)
  have e: "activeFilters (useTable (tableName s) rid (snd (performAll as (s, st))))
     = lastFilters (readFilters st (tableName s)) as"
    by (simp add: readFilters_performAll)
  have f: "hiddenColumns (useTable (tableName s) rid (snd (performAll as (s, st))))
     = lastColumns (readColumns st (tableName s)) as"
    by (simp add: readColumns_performAll)
  have g: "activeFilters (useTable name rid []) = []" "hiddenColumns (useTable name rid []) = []"
    by (simp_all add: readFilters_def readColumns_def getItem_def)
  have h: "name \<noteq> tableName s \<and> getItem st (filtersKey name) = None \<and>
    getItem st (columnsKey name) = None \<longrightarrow>
      activeFilters (useTable name rid (snd (performAll as (s, st)))) = [] \<and>
      hiddenColumns (useTable name rid (snd (performAll as (s, st)))) = []"
    by (simp add: readFilters_performAll readColumns_performAll) (simp add: readFilters_def readColumns_def)
  from a b c d e f g h show ?thesis by blast
qed

theorem persisted_roundtrip_witness:
  "activeFilters (useTable ''parts'' ''mantine-r2'' (snd (performAll exampleActions (exampleState, []))))
     = [exampleFilter] \<and>
   hiddenColumns (useTable ''parts'' ''mantine-r2'' (snd (performAll exampleActions (exampleState, []))))
     = [''notes''] \<and>
   ''stock'' \<noteq> tableName exampleState \<and>
   getItem [] (filtersKey ''stock'') = None \<and>
   getItem [] (columnsKey ''stock'') = None \<and>
   activeFilters (useTable ''stock'' ''mantine-r2'' (snd (performAll exampleActions (exampleState, []))))
     = [] \<and>
   hiddenColumns (useTable ''stock'' ''mantine-r2'' (snd (performAll exampleActions (exampleState, []))))
     = []"
proof -
  have n: "tableName exampleState = ''parts''"
    by (simp add: exampleState_def setRecords_def useTable_def)
  have h: "''stock'' \<noteq> tableName exampleState \<and> getItem [] (filtersKey ''stock'') = None \<and>
      getItem [] (columnsKey ''stock'') = None"
    by (simp add: n getItem_def)
  from persisted_roundtrip [of "[]" exampleState "[]" "[]" "''mantine-r2''" exampleActions "''stock''"]
  show ?thesis
    using h by (simp add: n exampleActions_def readFilters_def readColumns_def getItem_def)
qed

end
